theory Spec2Isabelle
  imports Main
begin

section \<open>Strings of the program\<close>

text \<open>
  A Python \<open>str\<close> is modelled as a \<open>string\<close>, a list of 8-bit characters read as the
  code points below 256.  Two notions of digit occur in \<open>share_manager.py\<close>:
  the regular expression class \<^verbatim>\<open>\d\<close>, which below 256 is exactly \<open>0\<close> to \<open>9\<close>, and
  \<^verbatim>\<open>str.isdigit\<close>, which also accepts the superscript digits U+00B2, U+00B3 and U+00B9.
  \<^verbatim>\<open>int()\<close> accepts only the former, and raises \<open>ValueError\<close> on the latter.
\<close>

datatype error = ValueError | OSError | ConnectionFailure

definition is_decimal :: "char \<Rightarrow> bool" where
  "is_decimal c = (c \<in> set ''0123456789'')"

definition is_superscript :: "char \<Rightarrow> bool" where
  "is_superscript c = (c = CHR 0xB2 \<or> c = CHR 0xB3 \<or> c = CHR 0xB9)"

definition isdigit_char :: "char \<Rightarrow> bool" where
  "isdigit_char c = (is_decimal c \<or> is_superscript c)"

text \<open>\<^verbatim>\<open>part.isdigit()\<close>: every character is a digit and there is at least one.\<close>

definition isdigit :: "string \<Rightarrow> bool" where
  "isdigit s = (s \<noteq> [] \<and> list_all isdigit_char s)"

definition digit_value :: "char \<Rightarrow> nat" where
  "digit_value c = of_char c - 48"

text \<open>\<^verbatim>\<open>int(part)\<close> on a string that passed \<^verbatim>\<open>isdigit()\<close>.\<close>

definition int_of_str :: "string \<Rightarrow> error + nat" where
  "int_of_str s =
     (if s \<noteq> [] \<and> list_all is_decimal s
      then Inr (foldl (\<lambda>n c. 10 * n + digit_value c) 0 s)
      else Inl ValueError)"

section \<open>Version text and version comparison (\<open>ShareManager\<close>)\<close>

subsection \<open>\<open>_extract_version_from_filename\<close>\<close>

text \<open>
  \<^verbatim>\<open>re.search(r'(\d+(\.\d+)*(-\d+)*)', filename)\<close> scans for the leftmost position where the
  pattern matches, which is the first decimal digit, and matches greedily from there.
  \<open>sep_groups sep s\<close> is the text consumed by \<^verbatim>\<open>(sep\d+)*\<close> at the head of \<open>s\<close>.
\<close>

function sep_groups :: "char \<Rightarrow> string \<Rightarrow> string" where
  "sep_groups sep [] = []"
| "sep_groups sep (c # rest) =
     (if c = sep \<and> takeWhile is_decimal rest \<noteq> []
      then c # takeWhile is_decimal rest @ sep_groups sep (dropWhile is_decimal rest)
      else [])"
  by pat_completeness auto
termination
  by (relation "measure (\<lambda>(sep, s). length s)")
     (auto simp: length_dropWhile_le le_imp_less_Suc)

definition match_here :: "string \<Rightarrow> string" where
  "match_here s =
     (let d = takeWhile is_decimal s;
          r1 = dropWhile is_decimal s;
          g1 = sep_groups (CHR ''.'') r1;
          r2 = drop (length g1) r1;
          g2 = sep_groups (CHR ''-'') r2
      in d @ g1 @ g2)"

definition re_search :: "string \<Rightarrow> string option" where
  "re_search filename =
     (case dropWhile (\<lambda>c. \<not> is_decimal c) filename of
        [] \<Rightarrow> None
      | s \<Rightarrow> Some (match_here s))"

definition extract_version_from_filename :: "string \<Rightarrow> string" where
  "extract_version_from_filename filename =
     (case re_search filename of
        Some version_match \<Rightarrow> version_match
      | None \<Rightarrow> filename)"

subsection \<open>\<open>_compare_versions\<close>\<close>

text \<open>\<^verbatim>\<open>re.split(r'[.-]', version_str)\<close>: the components between separators, empty ones kept.\<close>

fun re_split :: "string \<Rightarrow> string list" where
  "re_split [] = [[]]"
| "re_split (c # cs) =
     (if c = CHR ''.'' \<or> c = CHR ''-'' then [] # re_split cs
      else (case re_split cs of
              [] \<Rightarrow> [[c]]
            | p # ps \<Rightarrow> (c # p) # ps))"

text \<open>The list comprehension \<^verbatim>\<open>[int(part) for part in parts if part.isdigit()]\<close>;
  the first \<^verbatim>\<open>int\<close> that raises ends it.\<close>

fun ints_of :: "string list \<Rightarrow> error + nat list" where
  "ints_of [] = Inr []"
| "ints_of (part # parts) =
     (if isdigit part
      then (case int_of_str part of
              Inl e \<Rightarrow> Inl e
            | Inr n \<Rightarrow> (case ints_of parts of
                          Inl e \<Rightarrow> Inl e
                        | Inr ns \<Rightarrow> Inr (n # ns)))
      else ints_of parts)"

definition parse_version :: "string \<Rightarrow> error + nat list" where
  "parse_version version_str = ints_of (re_split version_str)"

text \<open>The loop \<^verbatim>\<open>for i in range(min(len(local_parts), len(remote_parts)))\<close> from index \<open>i\<close> on,
  followed by the final \<^verbatim>\<open>return len(remote_parts) > len(local_parts)\<close>.\<close>

function compare_from :: "nat \<Rightarrow> nat list \<Rightarrow> nat list \<Rightarrow> bool" where
  "compare_from i local_parts remote_parts =
     (if i < min (length local_parts) (length remote_parts)
      then (if remote_parts ! i > local_parts ! i then True
            else if remote_parts ! i < local_parts ! i then False
            else compare_from (Suc i) local_parts remote_parts)
      else length remote_parts > length local_parts)"
  by pat_completeness auto
termination
  by (relation "measure (\<lambda>(i, l, r). min (length l) (length r) - i)") auto

declare compare_from.simps [simp del]

text \<open>A version argument is \<open>None\<close> or a string; \<^verbatim>\<open>not local_version\<close> holds for \<open>None\<close> and
  for the empty string.  Any exception inside the \<^verbatim>\<open>try\<close> block returns \<open>True\<close>.\<close>

definition falsy :: "string option \<Rightarrow> bool" where
  "falsy v = (case v of None \<Rightarrow> True | Some s \<Rightarrow> s = [])"

definition compare_versions :: "string option \<Rightarrow> string option \<Rightarrow> bool" where
  "compare_versions local_version remote_version =
     (if falsy local_version \<or> falsy remote_version then True
      else (case parse_version (the local_version) of
              Inl e \<Rightarrow> True
            | Inr local_parts \<Rightarrow>
                (case parse_version (the remote_version) of
                   Inl e \<Rightarrow> True
                 | Inr remote_parts \<Rightarrow> compare_from 0 local_parts remote_parts)))"

section \<open>Paths and the local directory\<close>

subsection \<open>\<open>Path.with_suffix\<close>\<close>

text \<open>
  \<open>pathlib\<close> on the final path component: \<^verbatim>\<open>suffix\<close> is the text from the last dot on,
  unless that dot is the first or the last character of the name; \<^verbatim>\<open>with_suffix\<close> cuts
  the suffix off and appends the new one, and raises \<open>ValueError\<close> on an empty name.
  All local paths of the program are \<^verbatim>\<open>Path(local_update_path) / filename\<close>, so a path is
  identified with its file name.
\<close>

definition rfind :: "char \<Rightarrow> string \<Rightarrow> nat option" where
  "rfind c s =
     (if c \<in> set s then Some (length s - 1 - length (takeWhile (\<lambda>x. x \<noteq> c) (rev s)))
      else None)"

definition suffix :: "string \<Rightarrow> string" where
  "suffix name =
     (case rfind (CHR ''.'') name of
        None \<Rightarrow> []
      | Some i \<Rightarrow> if 0 < i \<and> i < length name - 1 then drop i name else [])"

definition stem :: "string \<Rightarrow> string" where
  "stem name = take (length name - length (suffix name)) name"

definition with_suffix :: "string \<Rightarrow> string \<Rightarrow> error + string" where
  "with_suffix name new_suffix =
     (if name = [] then Inl ValueError
      else if suffix name = [] then Inr (name @ new_suffix)
      else Inr (take (length name - length (suffix name)) name @ new_suffix))"

subsection \<open>Files\<close>

type_synonym time = int

type_synonym bytes = string

record local_file =
  content :: bytes
  st_mtime :: time

text \<open>The local update directory in enumeration order, one entry per file name.\<close>

type_synonym local_dir = "(string \<times> local_file) list"

definition exists_in :: "local_dir \<Rightarrow> string \<Rightarrow> bool" where
  "exists_in files name = (map_of files name \<noteq> None)"

definition write_file :: "string \<Rightarrow> local_file \<Rightarrow> local_dir \<Rightarrow> local_dir" where
  "write_file name f files =
     (if exists_in files name
      then map (\<lambda>(n, g). if n = name then (n, f) else (n, g)) files
      else files @ [(name, f)])"

definition unlink :: "string \<Rightarrow> local_dir \<Rightarrow> local_dir" where
  "unlink name files = filter (\<lambda>(n, g). n \<noteq> name) files"

text \<open>\<^verbatim>\<open>shutil.move(src, dst)\<close> when it succeeds: \<open>dst\<close> gets the file of \<open>src\<close>, and \<open>src\<close>
  is gone.  Moving a file onto itself changes nothing.\<close>

definition move :: "string \<Rightarrow> string \<Rightarrow> local_dir \<Rightarrow> local_dir" where
  "move src dst files =
     (if src = dst then files
      else (case map_of files src of
              None \<Rightarrow> files
            | Some f \<Rightarrow> write_file dst f (unlink src files)))"

section \<open>The remote share and the \<open>ShareManager\<close>\<close>

text \<open>An entry of \<^verbatim>\<open>connection.listPath\<close>, and the dictionary \<^verbatim>\<open>list_updates\<close> builds from it.
  Timestamps are integers; a later time is a larger one.\<close>

record shared_file =
  sf_filename :: string
  isDirectory :: bool
  file_size :: nat
  sf_create_time :: time
  last_write_time :: time

record update =
  filename :: string
  usize :: nat
  create_time :: time
  last_modified :: time

text \<open>\<^verbatim>\<open>connection.retrieveFile\<close> either delivers the whole file, or raises after it has
  written some bytes to the file object.\<close>

datatype stream_result = Delivered bytes | Dropped bytes

text \<open>
  What the program's environment answers during one cycle: the credential store, the
  server, the operating system and the clock.  \<open>local_matches\<close> is \<^verbatim>\<open>Path.glob\<close> with
  \<^verbatim>\<open>config.version_file_pattern\<close>; \<open>remote_matches\<close> is \<^verbatim>\<open>re.match\<close>, ignoring case, with
  the same pattern after \<^verbatim>\<open>replace('*', '.*')\<close>.
\<close>

record world =
  load_credentials :: "(string \<times> string) option"
  smb_connect :: "error + bool"
  listPath :: "error + shared_file list"
  retrieveFile :: "string \<Rightarrow> stream_result"
  getAttributes :: "string \<Rightarrow> error + nat"
  can_open :: "string \<Rightarrow> bool"
  can_move :: "string \<Rightarrow> string \<Rightarrow> bool"
  local_matches :: "string \<Rightarrow> bool"
  remote_matches :: "string \<Rightarrow> bool"
  process_probe :: "error + bool"
  now :: time
  isoformat :: "time \<Rightarrow> bytes"

record share_manager =
  connection :: bool
  connected :: bool
  dir_exists :: bool
  files :: local_dir

subsection \<open>Connection\<close>

definition connect :: "world \<Rightarrow> share_manager \<Rightarrow> bool \<times> share_manager" where
  "connect w s =
     (case load_credentials w of
        None \<Rightarrow> (False, s)
      | Some (username, password) \<Rightarrow>
          if username = [] \<or> password = [] then (False, s)
          else (case smb_connect w of
                  Inl e \<Rightarrow> (False, s\<lparr>connection := True\<rparr>)
                | Inr ok \<Rightarrow> (ok, s\<lparr>connection := True, connected := ok\<rparr>)))"

definition ensure_connected :: "world \<Rightarrow> share_manager \<Rightarrow> bool \<times> share_manager" where
  "ensure_connected w s =
     (if \<not> connected s \<or> \<not> connection s then connect w s else (True, s))"

definition to_update :: "shared_file \<Rightarrow> update" where
  "to_update f =
     \<lparr>filename = sf_filename f, usize = file_size f,
      create_time = sf_create_time f, last_modified = last_write_time f\<rparr>"

definition list_updates :: "world \<Rightarrow> share_manager \<Rightarrow> update list \<times> share_manager" where
  "list_updates w s =
     (case ensure_connected w s of
        (False, s1) \<Rightarrow> ([], s1)
      | (True, s1) \<Rightarrow>
          (case listPath w of
             Inl e \<Rightarrow> ([], s1)
           | Inr fs \<Rightarrow>
               (map to_update
                  (filter (\<lambda>f. sf_filename f \<notin> set [''.'', ''..''] \<and> \<not> isDirectory f) fs),
                s1)))"

subsection \<open>\<open>download_file\<close> and \<open>_verify_file\<close>\<close>

definition verify_file :: "world \<Rightarrow> share_manager \<Rightarrow> string \<Rightarrow> string \<Rightarrow> bool" where
  "verify_file w s name local_path =
     (case map_of (files s) local_path of
        None \<Rightarrow> False
      | Some f \<Rightarrow>
          (case getAttributes w name of
             Inl e \<Rightarrow> False
           | Inr remote_size \<Rightarrow> length (content f) = remote_size))"

definition temp_path :: "string \<Rightarrow> error + string" where
  "temp_path local_path = with_suffix local_path ''.tmp''"

definition download_file :: "world \<Rightarrow> share_manager \<Rightarrow> string \<Rightarrow> bool \<times> share_manager" where
  "download_file w s name =
     (case ensure_connected w s of
        (False, s1) \<Rightarrow> (False, s1)
      | (True, s1) \<Rightarrow>
          (let s2 = s1\<lparr>dir_exists := True\<rparr> in
           case temp_path name of
             Inl e \<Rightarrow> (False, s2)
           | Inr tmp \<Rightarrow>
               if \<not> can_open w tmp then (False, s2)
               else (case retrieveFile w name of
                       Dropped bs \<Rightarrow>
                         (False, s2\<lparr>files := write_file tmp \<lparr>content = bs, st_mtime = now w\<rparr> (files s2)\<rparr>)
                     | Delivered bs \<Rightarrow>
                         (let s3 = s2\<lparr>files := write_file tmp \<lparr>content = bs, st_mtime = now w\<rparr> (files s2)\<rparr>
                          in if verify_file w s3 name tmp
                             then (if can_move w tmp name
                                   then (True, s3\<lparr>files := move tmp name (files s3)\<rparr>)
                                   else (False, s3))
                             else (False, s3\<lparr>files := unlink tmp (files s3)\<rparr>)))))"

subsection \<open>Version markers\<close>

text \<open>Python's \<^verbatim>\<open>max(xs, key=k)\<close> on a non-empty list returns the first element whose key
  is maximal.\<close>

fun max_by :: "('a \<Rightarrow> time) \<Rightarrow> 'a \<Rightarrow> 'a list \<Rightarrow> 'a" where
  "max_by key best [] = best"
| "max_by key best (x # xs) = max_by key (if key x > key best then x else best) xs"

definition get_local_version :: "world \<Rightarrow> share_manager \<Rightarrow> string option \<times> string option" where
  "get_local_version w s =
     (if \<not> dir_exists s then (None, None)
      else (case filter (\<lambda>(n, f). local_matches w n) (files s) of
              [] \<Rightarrow> (None, None)
            | v # vs \<Rightarrow>
                (let name = fst (max_by (\<lambda>(n, f). st_mtime f) v vs)
                 in (Some name, Some (extract_version_from_filename name)))))"

definition get_remote_version ::
  "world \<Rightarrow> share_manager \<Rightarrow> (string option \<times> string option) \<times> share_manager" where
  "get_remote_version w s =
     (case ensure_connected w s of
        (False, s1) \<Rightarrow> ((None, None), s1)
      | (True, s1) \<Rightarrow>
          (case list_updates w s1 of
             ([], s2) \<Rightarrow> ((None, None), s2)
           | (remote_files, s2) \<Rightarrow>
               (case filter (\<lambda>f. remote_matches w (filename f)) remote_files of
                  [] \<Rightarrow> ((None, None), s2)
                | v # vs \<Rightarrow>
                    (let name = filename (max_by last_modified v vs)
                     in ((Some name, Some (extract_version_from_filename name)), s2)))))"

text \<open>
  \<open>_get_local_version\<close>, \<open>_get_remote_version\<close> and \<open>_compare_versions\<close> catch every
  exception themselves, so the \<^verbatim>\<open>except\<close> clause of \<open>_check_version_files\<close> (which answers
  true) is never entered and has no branch here.
\<close>

text \<open>The dictionary with the keys \<^verbatim>\<open>local\<close>, \<^verbatim>\<open>remote\<close>, \<^verbatim>\<open>local_file\<close> and \<^verbatim>\<open>remote_file\<close>;
  an absent key reads as \<open>None\<close>.\<close>

record version_info =
  v_local :: "string option"
  v_remote :: "string option"
  v_local_file :: "string option"
  v_remote_file :: "string option"

definition check_version_files :: "world \<Rightarrow> share_manager \<Rightarrow> (bool \<times> version_info) \<times> share_manager" where
  "check_version_files w s =
     (case get_local_version w s of
        (local_version_file, local_version) \<Rightarrow>
          if falsy local_version_file \<or> falsy local_version
          then ((True, \<lparr>v_local = None, v_remote = None, v_local_file = None, v_remote_file = None\<rparr>), s)
          else (case get_remote_version w s of
                  ((remote_version_file, remote_version), s1) \<Rightarrow>
                    if falsy remote_version_file \<or> falsy remote_version
                    then ((False, \<lparr>v_local = local_version, v_remote = None,
                                   v_local_file = None, v_remote_file = None\<rparr>), s1)
                    else ((compare_versions local_version remote_version,
                           \<lparr>v_local = local_version, v_remote = remote_version,
                            v_local_file = local_version_file,
                            v_remote_file = remote_version_file\<rparr>), s1)))"

subsection \<open>\<open>_needs_update\<close>, \<open>check_for_updates\<close> and \<open>download_updates\<close>\<close>

definition needs_update :: "share_manager \<Rightarrow> update \<Rightarrow> bool" where
  "needs_update s remote_file =
     (case map_of (files s) (filename remote_file) of
        None \<Rightarrow> True
      | Some f \<Rightarrow>
          if usize remote_file \<noteq> length (content f) then True
          else if last_modified remote_file > st_mtime f then True
          else False)"

definition check_for_updates :: "world \<Rightarrow> share_manager \<Rightarrow> (bool \<times> update list) \<times> share_manager" where
  "check_for_updates w s =
     (case ensure_connected w s of
        (False, s1) \<Rightarrow> ((False, []), s1)
      | (True, s1) \<Rightarrow>
          (case check_version_files w s1 of
             ((has_newer_version, info), s2) \<Rightarrow>
               if \<not> has_newer_version then ((False, []), s2)
               else (case list_updates w s2 of
                       ([], s3) \<Rightarrow> ((False, []), s3)
                     | (remote_files, s3) \<Rightarrow>
                         (let s4 = s3\<lparr>dir_exists := True\<rparr>;
                              updates_available = filter (needs_update s4) remote_files
                          in ((updates_available \<noteq> [], updates_available), s4)))))"

text \<open>The loop of \<^verbatim>\<open>download_updates\<close> over the update list, counting successes.\<close>

fun download_each :: "world \<Rightarrow> share_manager \<Rightarrow> update list \<Rightarrow> nat \<Rightarrow> nat \<times> share_manager" where
  "download_each w s [] success_count = (success_count, s)"
| "download_each w s (u # us) success_count =
     (case download_file w s (filename u) of
        (True, s1) \<Rightarrow> download_each w s1 us (success_count + 1)
      | (False, s1) \<Rightarrow> download_each w s1 us success_count)"

definition download_updates :: "world \<Rightarrow> share_manager \<Rightarrow> update list \<Rightarrow> bool \<times> share_manager" where
  "download_updates w s update_list =
     (case ensure_connected w s of
        (False, s1) \<Rightarrow> (False, s1)
      | (True, s1) \<Rightarrow>
          (if update_list = []
           then (case check_for_updates w s1 of
                   ((False, checked), s2) \<Rightarrow> (True, s2)
                 | ((True, checked), s2) \<Rightarrow>
                     (case download_each w s2 checked 0 of
                        (success_count, s3) \<Rightarrow> (success_count = length checked, s3)))
           else (case download_each w s1 update_list 0 of
                   (success_count, s2) \<Rightarrow> (success_count = length update_list, s2))))"

section \<open>The \<open>UpdateManager\<close>\<close>

datatype status =
  Idle | Checking | Downloading | UpToDate | Downloaded | DownloadFailed | Error | UpdateAvailable

record update_manager =
  update_status :: status
  last_check_time :: "time option"
  info :: version_info
  share :: share_manager

definition update_version_info :: "world \<Rightarrow> update_manager \<Rightarrow> update_manager" where
  "update_version_info w m =
     (case get_local_version w (share m) of
        (lf, lv) \<Rightarrow>
          (case get_remote_version w (share m) of
             ((rf, rv), s1) \<Rightarrow>
               m\<lparr>info := \<lparr>v_local = lv, v_remote = rv, v_local_file = lf, v_remote_file = rf\<rparr>,
                 share := s1\<rparr>))"

text \<open>\<^verbatim>\<open>_notify_app_about_update\<close> writes the flag file into the local directory.\<close>

definition notify_app_about_update :: "world \<Rightarrow> update_manager \<Rightarrow> update_manager" where
  "notify_app_about_update w m =
     m\<lparr>share := (share m)\<lparr>files :=
          write_file ''_UPDATE_AVAILABLE'' \<lparr>content = isoformat w (now w), st_mtime = now w\<rparr>
            (files (share m))\<rparr>\<rparr>"

text \<open>
  \<^verbatim>\<open>check_and_download_updates\<close> at time \<open>now w\<close>.  The first two assignments are outside the
  \<^verbatim>\<open>try\<close> block.  The only call of the block that can raise is the process scan of
  \<^verbatim>\<open>_is_app_running\<close>; every \<open>ShareManager\<close> method catches its own exceptions.
\<close>

definition check_and_download_updates :: "world \<Rightarrow> update_manager \<Rightarrow> bool \<times> update_manager" where
  "check_and_download_updates w m =
     (let m1 = m\<lparr>update_status := Checking, last_check_time := Some (now w)\<rparr> in
      case process_probe w of
        Inl e \<Rightarrow> (False, m1\<lparr>update_status := Error\<rparr>)
      | Inr app_running \<Rightarrow>
          (case check_for_updates w (share m1) of
             ((has_updates, updates_list), s1) \<Rightarrow>
               (let m2 = update_version_info w (m1\<lparr>share := s1\<rparr>) in
                if \<not> has_updates then (False, m2\<lparr>update_status := UpToDate\<rparr>)
                else (let m3 = m2\<lparr>update_status := Downloading\<rparr> in
                      case download_updates w (share m3) updates_list of
                        (True, s2) \<Rightarrow>
                          (let m4 = update_version_info w (m3\<lparr>update_status := Downloaded, share := s2\<rparr>)
                           in (True, if app_running then notify_app_about_update w m4 else m4))
                      | (False, s2) \<Rightarrow>
                          (False, m3\<lparr>update_status := DownloadFailed, share := s2\<rparr>)))))"

text \<open>
  \<^verbatim>\<open>force_update_check\<close> returns whether it started a thread running
  \<^verbatim>\<open>check_and_download_updates\<close>; it assigns nothing itself.
\<close>

definition force_update_check :: "update_manager \<Rightarrow> bool \<times> update_manager" where
  "force_update_check m =
     (if update_status m \<in> set [Checking, Downloading] then (False, m) else (True, m))"

section \<open>The specification's notions\<close>

text \<open>
  The order on version tags in the specification's words: \<open>b\<close> is newer than \<open>a\<close> when at
  the first index where they differ \<open>b\<close> has the larger component, or when \<open>a\<close> is a
  strict prefix of \<open>b\<close>.
\<close>

definition spec_newer :: "nat list \<Rightarrow> nat list \<Rightarrow> bool" where
  "spec_newer a b =
     ((\<exists>i. i < length a \<and> i < length b \<and> take i a = take i b \<and> a ! i < b ! i)
      \<or> (length a < length b \<and> take (length a) b = a))"

text \<open>
  The texts the pattern of \<open>_extract_version_from_filename\<close> matches as a whole: a run of
  decimal digits, then groups of a dot and a run, then groups of a hyphen and a run.
\<close>

definition digit_run :: "string \<Rightarrow> bool" where
  "digit_run d = (d \<noteq> [] \<and> list_all is_decimal d)"

definition groups_text :: "char \<Rightarrow> string list \<Rightarrow> string" where
  "groups_text sep gs = concat (map (\<lambda>g. sep # g) gs)"

definition version_text :: "string \<Rightarrow> bool" where
  "version_text v =
     (\<exists>d ds hs. v = d @ groups_text (CHR ''.'') ds @ groups_text (CHR ''-'') hs
        \<and> digit_run d \<and> list_all digit_run ds \<and> list_all digit_run hs)"

section \<open>Example environments\<close>

text \<open>
  A server that accepts the stored credentials and drops every transfer after two
  bytes, the same server refusing the connection, a \<open>ShareManager\<close> that has not
  connected yet, and an \<open>UpdateManager\<close> whose last check was at time 1.
\<close>

definition example_world :: world where
  "example_world =
     \<lparr>load_credentials = Some (''user'', ''secret''),
      smb_connect = Inr True,
      listPath = Inr [],
      retrieveFile = (\<lambda>name. Dropped ''ne''),
      getAttributes = (\<lambda>name. Inr 3),
      can_open = (\<lambda>p. True),
      can_move = (\<lambda>src dst. True),
      local_matches = (\<lambda>name. take 6 name = ''SIGES ''),
      remote_matches = (\<lambda>name. take 6 name = ''SIGES ''),
      process_probe = Inr False,
      now = 5,
      isoformat = (\<lambda>t. ''t'')\<rparr>"

definition offline_world :: world where
  "offline_world = example_world\<lparr>smb_connect := Inr False\<rparr>"

definition example_manager :: "local_dir \<Rightarrow> share_manager" where
  "example_manager fs = \<lparr>connection = False, connected = False, dir_exists = True, files = fs\<rparr>"

definition example_update_manager :: "status \<Rightarrow> local_dir \<Rightarrow> update_manager" where
  "example_update_manager st fs =
     \<lparr>update_status = st, last_check_time = Some 1,
      info = \<lparr>v_local = None, v_remote = None, v_local_file = None, v_remote_file = None\<rparr>,
      share = example_manager fs\<rparr>"






section \<open>Version comparison\<close>

lemma compare_from_spec:
  "take i a = take i b \<Longrightarrow> i \<le> length a \<Longrightarrow> i \<le> length b \<Longrightarrow>
   compare_from i a b = spec_newer a b"
proof (induction i a b rule: compare_from.induct)
  case (1 i a b)
  show ?case
  proof (cases "i < min (length a) (length b)")
    case True
    then have ia: "i < length a" and ib: "i < length b" by auto
    consider (gt) "b ! i > a ! i" | (lt) "b ! i < a ! i" | (eq) "b ! i = a ! i"
      by (meson nat_neq_iff)
    then show ?thesis
    proof cases
      case gt
      then have "spec_newer a b"
        unfolding spec_newer_def using ia ib "1.prems"(1) by blast
      moreover have "compare_from i a b" using True gt by (simp add: compare_from.simps)
      ultimately show ?thesis by simp
    next
      case lt
      have c: "\<not> compare_from i a b" using True lt by (simp add: compare_from.simps)
      have "\<not> spec_newer a b"
      proof
        assume "spec_newer a b"
        then consider (idx) j where "j < length a" "j < length b" "take j a = take j b" "a ! j < b ! j"
          | (pre) "length a < length b" "take (length a) b = a"
          unfolding spec_newer_def by blast
        then show False
        proof cases
          case idx
          show False
          proof (cases j i rule: linorder_cases)
            case less
            then have "a ! j = b ! j" using "1.prems"(1) idx(1,2) by (metis nth_take)
            then show False using idx(4) by simp
          next
            case equal
            then show False using idx(4) lt by simp
          next
            case greater
            then have "a ! i = b ! i" using idx(3) ia ib by (metis nth_take)
            then show False using lt by simp
          qed
        next
          case pre
          then have "b ! i = a ! i" using ia by (metis nth_take)
          then show False using lt by simp
        qed
      qed
      then show ?thesis using c by simp
    next
      case eq
      have t: "take (Suc i) a = take (Suc i) b"
        using "1.prems"(1) ia ib eq by (simp add: take_Suc_conv_app_nth)
      have "compare_from i a b = compare_from (Suc i) a b"
        using True eq by (subst compare_from.simps) simp
      also have "\<dots> = spec_newer a b"
        using "1.IH" True eq t ia ib by simp
      finally show ?thesis .
    qed
  next
    case False
    then have c: "compare_from i a b = (length b > length a)"
      by (subst compare_from.simps) (simp only: if_False)
    show ?thesis
    proof (cases "length a < length b")
      case True
      then have "i = length a" using False "1.prems" by simp
      then have "take (length a) b = a" using "1.prems"(1) by simp
      then show ?thesis using c True by (simp add: spec_newer_def)
    next
      case F2: False
      then have il: "i = length b" using False "1.prems" by simp
      then have tb: "take (length b) a = b" using "1.prems"(1) by simp
      have "\<not> spec_newer a b"
      proof
        assume "spec_newer a b"
        then obtain j where j: "j < length a" "j < length b" "a ! j < b ! j"
          unfolding spec_newer_def using F2 by blast
        have "a ! j = b ! j" using tb j(2) by (metis nth_take)
        then show False using j(3) by simp
      qed
      then show ?thesis using c F2 by simp
    qed
  qed
qed

lemma compare_from_0: "compare_from 0 a b = spec_newer a b"
  by (rule compare_from_spec) simp_all

lemma match_here_nonempty: "s \<noteq> [] \<Longrightarrow> is_decimal (hd s) \<Longrightarrow> match_here s \<noteq> []"
  by (cases s) (simp_all add: match_here_def Let_def)

lemma extract_nonempty: "f \<noteq> [] \<Longrightarrow> extract_version_from_filename f \<noteq> []"
proof -
  assume f: "f \<noteq> []"
  show ?thesis
  proof (cases "dropWhile (\<lambda>c. \<not> is_decimal c) f")
    case Nil
    have "re_search f = None" unfolding re_search_def Nil by simp
    then show ?thesis using f by (simp add: extract_version_from_filename_def)
  next
    case (Cons c cs)
    then have "is_decimal (hd (c # cs))"
      using hd_dropWhile[of "\<lambda>c. \<not> is_decimal c" f] by auto
    then have "match_here (c # cs) \<noteq> []" by (intro match_here_nonempty) simp_all
    moreover have "re_search f = Some (match_here (c # cs))" unfolding re_search_def Cons by simp
    ultimately show ?thesis by (simp add: extract_version_from_filename_def)
  qed
qed

text \<open>
  Claim C5.  For the version texts of two file names, whose tags are \<open>a\<close> (local) and \<open>b\<close>
  (remote), \<open>_compare_versions\<close> returns true exactly when \<open>b\<close> is newer than \<open>a\<close> in the
  order of the specification: component by component from the left, the first difference
  decides, and a strict prefix is older than the longer tag.  The comparison loop itself
  is that order on all tags.
\<close>

theorem compare_versions_orders_tags:
  assumes "lf \<noteq> []" and "rf \<noteq> []"
    and "parse_version (extract_version_from_filename lf) = Inr a"
    and "parse_version (extract_version_from_filename rf) = Inr b"
  shows "compare_versions (Some (extract_version_from_filename lf))
           (Some (extract_version_from_filename rf)) = spec_newer a b
         \<and> compare_from 0 a b = spec_newer a b"
  using assms extract_nonempty[of lf] extract_nonempty[of rf]
  by (simp add: compare_versions_def falsy_def compare_from_0)

text \<open>The tags \<open>(1,2)\<close> and \<open>(1,2,0)\<close>: the second is newer.\<close>

theorem compare_versions_orders_tags_witness:
  "''SIGES 1.2.txt'' \<noteq> [] \<and> ''SIGES 1.2.0.txt'' \<noteq> []
   \<and> parse_version (extract_version_from_filename ''SIGES 1.2.txt'') = Inr [1, 2]
   \<and> parse_version (extract_version_from_filename ''SIGES 1.2.0.txt'') = Inr [1, 2, 0]
   \<and> compare_versions (Some ''1.2'') (Some ''1.2.0'')
   \<and> spec_newer [1, 2] [1, 2, 0]"
proof -
  have e1: "extract_version_from_filename ''SIGES 1.2.txt'' = ''1.2''" by code_simp
  have e2: "extract_version_from_filename ''SIGES 1.2.0.txt'' = ''1.2.0''" by code_simp
  have p1: "parse_version (extract_version_from_filename ''SIGES 1.2.txt'') = Inr [1, 2]" by code_simp
  have p2: "parse_version (extract_version_from_filename ''SIGES 1.2.0.txt'') = Inr [1, 2, 0]" by code_simp
  have c: "compare_versions (Some ''1.2'') (Some ''1.2.0'')" by code_simp
  have n1: "''SIGES 1.2.txt'' \<noteq> []" and n2: "''SIGES 1.2.0.txt'' \<noteq> []" by simp_all
  from compare_versions_orders_tags[OF n1 n2 p1 p2] c e1 e2 p1 p2
  show ?thesis by simp
qed

lemma ints_of_filter: "ints_of (filter isdigit parts) = ints_of parts"
  by (induction parts) (auto split: sum.splits)

lemma parse_version_digit_components:
  "filter isdigit (re_split a) = filter isdigit (re_split b) \<Longrightarrow> parse_version a = parse_version b"
  unfolding parse_version_def by (metis ints_of_filter)

lemma spec_newer_irrefl: "\<not> spec_newer t t"
  by (simp add: spec_newer_def)

text \<open>
  Claim C10, as amended.  The parser splits at every dot and hyphen and keeps the
  components that pass \<^verbatim>\<open>isdigit()\<close>.  Two non-empty version strings with the same such
  components parse alike; when the parse yields a tag, it is the same tag for both, and
  \<open>_compare_versions\<close> reports neither as newer than the other.
\<close>

theorem compare_versions_ignores_non_digit_components:
  assumes "filter isdigit (re_split a) = filter isdigit (re_split b)"
    and "a \<noteq> []" and "b \<noteq> []"
    and "parse_version a = Inr t"
  shows "parse_version b = Inr t
         \<and> \<not> compare_versions (Some a) (Some b)
         \<and> \<not> compare_versions (Some b) (Some a)"
proof -
  have pb: "parse_version b = Inr t"
    using parse_version_digit_components[OF assms(1)] assms(4) by simp
  then show ?thesis
    using assms(2,3,4) by (simp add: compare_versions_def falsy_def compare_from_0 spec_newer_irrefl)
qed

theorem compare_versions_ignores_non_digit_components_witness:
  "filter isdigit (re_split ''20.0.20-rc1'') = filter isdigit (re_split ''20.0.20-rc2'')
   \<and> ''20.0.20-rc1'' \<noteq> [] \<and> ''20.0.20-rc2'' \<noteq> []
   \<and> parse_version ''20.0.20-rc1'' = Inr [20, 0, 20]
   \<and> parse_version ''20.0.20-rc2'' = Inr [20, 0, 20]
   \<and> \<not> compare_versions (Some ''20.0.20-rc1'') (Some ''20.0.20-rc2'')
   \<and> \<not> compare_versions (Some ''20.0.20-rc2'') (Some ''20.0.20-rc1'')"
proof -
  have h1: "filter isdigit (re_split ''20.0.20-rc1'') = filter isdigit (re_split ''20.0.20-rc2'')"
    by code_simp
  have h2: "''20.0.20-rc1'' \<noteq> []" and h3: "''20.0.20-rc2'' \<noteq> []" by simp_all
  have h4: "parse_version ''20.0.20-rc1'' = Inr [20, 0, 20]" by code_simp
  from compare_versions_ignores_non_digit_components[OF h1 h2 h3 h4] h1 h4
  show ?thesis by simp
qed

text \<open>
  The claim as written fails where a component passes \<^verbatim>\<open>isdigit()\<close> and \<^verbatim>\<open>int()\<close> rejects
  it: the component of superscript two is not discarded, the parse raises, and the
  comparison answers true.  It fails as well at the empty string, which the guard at the
  head of \<open>_compare_versions\<close> answers with true.
\<close>

theorem compare_versions_superscript_counterexample:
  "filter isdigit (re_split (CHR 0xB2 # ''-rc1'')) = filter isdigit (re_split (CHR 0xB2 # ''-rc2''))
   \<and> compare_versions (Some (CHR 0xB2 # ''-rc1'')) (Some (CHR 0xB2 # ''-rc2''))
   \<and> filter isdigit (re_split '''') = filter isdigit (re_split ''rc'')
   \<and> compare_versions (Some '''') (Some ''rc'')"
  by code_simp

section \<open>Transfers\<close>

lemma map_of_write_file_same [simp]: "map_of (write_file n f fs) n = Some f"
proof (cases "exists_in fs n")
  case True
  then have "map_of (map (\<lambda>(n', g). if n' = n then (n', f) else (n', g)) fs) n = Some f"
    unfolding exists_in_def by (induction fs) (auto split: if_splits)
  then show ?thesis using True by (simp add: write_file_def)
next
  case False
  then show ?thesis by (simp add: write_file_def exists_in_def map_add_def)
qed

lemma map_of_write_file_other [simp]: "n' \<noteq> n \<Longrightarrow> map_of (write_file n f fs) n' = map_of fs n'"
proof -
  assume ne: "n' \<noteq> n"
  have "map_of (map (\<lambda>(m, g). if m = n then (m, f) else (m, g)) fs) n' = map_of fs n'"
    using ne by (induction fs) auto
  then show ?thesis using ne by (auto simp: write_file_def map_add_def split: option.splits)
qed

lemma map_of_unlink_same [simp]: "map_of (unlink n fs) n = None"
  by (induction fs) (auto simp: unlink_def)

lemma map_of_unlink_other [simp]: "n' \<noteq> n \<Longrightarrow> map_of (unlink n fs) n' = map_of fs n'"
  by (induction fs) (auto simp: unlink_def)

lemma temp_path_stem: "name \<noteq> [] \<Longrightarrow> temp_path name = Inr (stem name @ ''.tmp'')"
  by (simp add: temp_path_def with_suffix_def stem_def)

lemma stem_suffix: "stem name @ suffix name = name"
  unfolding stem_def suffix_def
  by (auto split: option.splits simp: rfind_def)

lemma temp_path_of_tmp: "suffix name = ''.tmp'' \<Longrightarrow> temp_path name = Inr name"
proof -
  assume s: "suffix name = ''.tmp''"
  then have "name \<noteq> []" by (auto simp: suffix_def rfind_def)
  then show ?thesis using temp_path_stem[of name] stem_suffix[of name] s by simp
qed

lemma download_file_dropped:
  assumes "ensure_connected w s = (True, s1)" "temp_path name = Inr tmp" "can_open w tmp"
    "retrieveFile w name = Dropped bs"
  shows "download_file w s name =
          (False, s1\<lparr>dir_exists := True,
                     files := write_file tmp \<lparr>content = bs, st_mtime = now w\<rparr> (files s1)\<rparr>)"
  using assms by (simp add: download_file_def Let_def)

lemma ensure_connected_files [simp]:
  "files (snd (ensure_connected w s)) = files s"
  "dir_exists (snd (ensure_connected w s)) = dir_exists s"
  by (auto simp: ensure_connected_def connect_def split: option.splits sum.splits prod.splits)

lemma download_file_failure_keeps_destination:
  assumes "temp_path name \<noteq> Inr name" and "\<not> fst (download_file w s name)"
  shows "map_of (files (snd (download_file w s name))) name = map_of (files s) name"
proof (cases "ensure_connected w s")
  case (Pair ok s1)
  have f1: "files s1 = files s" using ensure_connected_files(1)[of w s] Pair by simp
  show ?thesis
  proof (cases ok)
    case False
    then show ?thesis using Pair f1 by (simp add: download_file_def)
  next
    case True
    show ?thesis
    proof (cases "temp_path name")
      case (Inl e)
      then show ?thesis using Pair True f1 by (simp add: download_file_def)
    next
      case (Inr tmp)
      then have ne: "name \<noteq> tmp" using assms(1) by auto
      show ?thesis
        using Pair True Inr ne f1 assms(2)
        by (auto simp: download_file_def Let_def split: stream_result.splits if_splits)
    qed
  qed
qed

lemma ex_conn: "ensure_connected example_world (example_manager fs) = (True, (example_manager fs)\<lparr>connection := True, connected := True\<rparr>)"
  by (simp add: ensure_connected_def connect_def example_world_def example_manager_def)

lemma download_file_tmp_destination_unlinked:
  assumes "ensure_connected w s = (True, s1)" and "suffix name = ''.tmp''" and "can_open w name"
    and "retrieveFile w name = Delivered bs" and "getAttributes w name = Inr n" and "n \<noteq> length bs"
  shows "\<not> fst (download_file w s name)"
    and "map_of (files (snd (download_file w s name))) name = None"
  using assms temp_path_of_tmp[OF assms(2)]
  by (auto simp: download_file_def Let_def verify_file_def)

text \<open>
  Claim C9, as amended.  The temporary path of \<open>download_file\<close> is the destination name
  with its final extension replaced by \<open>.tmp\<close>, the extension being what \<open>pathlib\<close>
  calls the suffix.  Names with the same stem share the temporary path.  For a name whose
  suffix is \<open>.tmp\<close> the temporary path is the destination itself, and the transfer is
  streamed in place: after a dropped stream the destination holds the bytes received.
\<close>

theorem temp_path_replaces_suffix:
  "(name \<noteq> [] \<longrightarrow> temp_path name = Inr (stem name @ ''.tmp''))
   \<and> (name \<noteq> [] \<and> other \<noteq> [] \<and> stem name = stem other \<longrightarrow> temp_path name = temp_path other)
   \<and> (suffix name = ''.tmp'' \<longrightarrow> temp_path name = Inr name)
   \<and> (suffix name = ''.tmp'' \<and> fst (ensure_connected w s) \<and> can_open w name
        \<and> retrieveFile w name = Dropped bs \<longrightarrow>
       \<not> fst (download_file w s name)
       \<and> map_of (files (snd (download_file w s name))) name
           = Some \<lparr>content = bs, st_mtime = now w\<rparr>)"
proof (intro conjI impI)
  assume "name \<noteq> []" then show "temp_path name = Inr (stem name @ ''.tmp'')"
    by (rule temp_path_stem)
next
  assume "name \<noteq> [] \<and> other \<noteq> [] \<and> stem name = stem other"
  then show "temp_path name = temp_path other" by (simp add: temp_path_stem)
next
  assume "suffix name = ''.tmp''" then show "temp_path name = Inr name" by (rule temp_path_of_tmp)
next
  assume a: "suffix name = ''.tmp'' \<and> fst (ensure_connected w s) \<and> can_open w name
        \<and> retrieveFile w name = Dropped bs"
  obtain s1 where e: "ensure_connected w s = (True, s1)" using a by (cases "ensure_connected w s") auto
  have t: "temp_path name = Inr name" using a temp_path_of_tmp by simp
  have d: "download_file w s name =
          (False, s1\<lparr>dir_exists := True,
                     files := write_file name \<lparr>content = bs, st_mtime = now w\<rparr> (files s1)\<rparr>)"
    using download_file_dropped[OF e t] a by simp
  show "\<not> fst (download_file w s name)" by (simp add: d)
  show "map_of (files (snd (download_file w s name))) name = Some \<lparr>content = bs, st_mtime = now w\<rparr>"
    by (simp add: d)
qed

theorem temp_path_replaces_suffix_witness:
  "''x.tmp'' \<noteq> [] \<and> ''x.bin'' \<noteq> [] \<and> stem ''x.tmp'' = stem ''x.bin''
   \<and> suffix ''x.tmp'' = ''.tmp''
   \<and> fst (ensure_connected example_world (example_manager []))
   \<and> can_open example_world ''x.tmp''
   \<and> retrieveFile example_world ''x.tmp'' = Dropped ''ne''
   \<and> temp_path ''x.tmp'' = Inr ''x.tmp''
   \<and> temp_path ''x.tmp'' = temp_path ''x.bin''
   \<and> \<not> fst (download_file example_world (example_manager []) ''x.tmp'')
   \<and> map_of (files (snd (download_file example_world (example_manager []) ''x.tmp''))) ''x.tmp''
       = Some \<lparr>content = ''ne'', st_mtime = now example_world\<rparr>"
proof -
  have h1: "''x.tmp'' \<noteq> []" and h2: "''x.bin'' \<noteq> []" by simp_all
  have h3: "stem ''x.tmp'' = stem ''x.bin''" by code_simp
  have h4: "suffix ''x.tmp'' = ''.tmp''" by code_simp
  have h5: "fst (ensure_connected example_world (example_manager []))" by (simp add: ex_conn)
  have h6: "can_open example_world ''x.tmp''" by (simp add: example_world_def)
  have h7: "retrieveFile example_world ''x.tmp'' = Dropped ''ne''" by (simp add: example_world_def)
  from temp_path_replaces_suffix[of "''x.tmp''" "''x.bin''" example_world "example_manager []" "''ne''"]
    h1 h2 h3 h4 h5 h6 h7
  show ?thesis by blast
qed

text \<open>
  The claim as written fails at the name \<open>.tmp\<close>: it ends in \<open>.tmp\<close>, but a leading dot
  starts no suffix, so the temporary path is a different file.
\<close>

theorem temp_path_bare_tmp_counterexample:
  "temp_path ''.tmp'' = Inr ''.tmp.tmp'' \<and> temp_path ''.tmp'' \<noteq> Inr ''.tmp''"
  by code_simp

text \<open>
  Claim C2 at a failing input.  The destination \<open>x.tmp\<close> holds \<open>old\<close>; the stream drops
  after two bytes; the transfer fails, and the destination holds the two bytes.
\<close>

theorem download_file_clobbers_tmp_destination:
  "download_file example_world
     (example_manager [(''x.tmp'', \<lparr>content = ''old'', st_mtime = 1\<rparr>)]) ''x.tmp''
   = (False, \<lparr>connection = True, connected = True, dir_exists = True,
              files = [(''x.tmp'', \<lparr>content = ''ne'', st_mtime = 5\<rparr>)]\<rparr>)"
  by (simp add: download_file_def ensure_connected_def connect_def example_world_def example_manager_def
      temp_path_def with_suffix_def suffix_def rfind_def write_file_def exists_in_def Let_def)

text \<open>
  Claim C4 at a failing input.  The stream for \<open>a.txt\<close> drops after two bytes; the
  transfer fails and the destination is as before, but the temporary file \<open>a.tmp\<close> is
  still there: only the branch for a failed verification deletes it.
\<close>

theorem download_file_leaves_temp_file:
  "download_file example_world
     (example_manager [(''a.txt'', \<lparr>content = ''old'', st_mtime = 1\<rparr>)]) ''a.txt''
   = (False, \<lparr>connection = True, connected = True, dir_exists = True,
              files = [(''a.txt'', \<lparr>content = ''old'', st_mtime = 1\<rparr>),
                       (''a.tmp'', \<lparr>content = ''ne'', st_mtime = 5\<rparr>)]\<rparr>)"
  by (simp add: download_file_def ensure_connected_def connect_def example_world_def example_manager_def
      temp_path_def with_suffix_def suffix_def rfind_def write_file_def exists_in_def Let_def)

section \<open>The update cycle\<close>

lemma connect_offline:
  assumes "\<not> connected s" "\<not> fst (connect w s)"
  shows "\<not> connected (snd (connect w s))" "\<not> fst (connect w (snd (connect w s)))"
    "files (snd (connect w s)) = files s" "dir_exists (snd (connect w s)) = dir_exists s"
  using assms by (auto simp: connect_def split: option.splits sum.splits prod.splits)

lemma ensure_connected_offline:
  assumes "\<not> connected s" "\<not> fst (connect w s)"
  shows "ensure_connected w s = (False, snd (connect w s))"
  using assms by (cases "connect w s") (auto simp: ensure_connected_def)

lemma check_for_updates_offline:
  assumes "\<not> connected s" "\<not> fst (connect w s)"
  shows "check_for_updates w s = ((False, []), snd (connect w s))"
  using ensure_connected_offline[OF assms] by (simp add: check_for_updates_def)

lemma get_remote_version_offline:
  assumes "\<not> connected s" "\<not> fst (connect w s)"
  shows "get_remote_version w s = ((None, None), snd (connect w s))"
  using ensure_connected_offline[OF assms] by (simp add: get_remote_version_def)

lemma update_version_info_keeps [simp]:
  "update_status (update_version_info w m) = update_status m"
  "last_check_time (update_version_info w m) = last_check_time m"
  by (auto simp: update_version_info_def split: prod.splits)

lemma check_and_download_updates_always_restarts:
  "last_check_time (snd (check_and_download_updates w m)) = Some (now w)
   \<and> update_status (snd (check_and_download_updates w m)) \<in> {Error, UpToDate, Downloaded, DownloadFailed}"
  by (auto simp: check_and_download_updates_def Let_def notify_app_about_update_def
      split: sum.splits prod.splits bool.splits)

lemma force_update_check_guard:
  "update_status m = Checking \<or> update_status m = Downloading \<Longrightarrow> force_update_check m = (False, m)"
  by (auto simp: force_update_check_def)

text \<open>
  Claim C3, as amended.  In a cycle where the session is not connected and cannot be
  connected, \<open>check_for_updates\<close> reports no updates, and
  \<open>check_and_download_updates\<close> returns false with the status \<open>up_to_date\<close>; the status
  is \<open>error\<close> only when the process scan raises.
\<close>

theorem offline_cycle_ends_up_to_date:
  assumes "\<not> connected (share m)" and "\<not> fst (connect w (share m))"
  shows "\<not> fst (check_and_download_updates w m)
         \<and> update_status (snd (check_and_download_updates w m))
             = (case process_probe w of Inl e \<Rightarrow> Error | Inr running \<Rightarrow> UpToDate)"
proof (cases "process_probe w")
  case (Inl e)
  then show ?thesis by (simp add: check_and_download_updates_def Let_def)
next
  case (Inr running)
  let ?s1 = "snd (connect w (share m))"
  have c: "check_for_updates w (share m) = ((False, []), ?s1)"
    by (rule check_for_updates_offline[OF assms])
  show ?thesis
    using Inr c
    by (simp add: check_and_download_updates_def Let_def update_version_info_def
        split: prod.splits)
qed

theorem offline_cycle_ends_up_to_date_witness:
  "\<not> connected (share (example_update_manager Idle []))
   \<and> \<not> fst (connect offline_world (share (example_update_manager Idle [])))
   \<and> \<not> fst (check_and_download_updates offline_world (example_update_manager Idle []))
   \<and> update_status (snd (check_and_download_updates offline_world (example_update_manager Idle [])))
       = UpToDate"
proof -
  have h1: "\<not> connected (share (example_update_manager Idle []))"
    by (simp add: example_update_manager_def example_manager_def)
  have h2: "\<not> fst (connect offline_world (share (example_update_manager Idle [])))"
    by (simp add: connect_def offline_world_def example_world_def)
  have p: "process_probe offline_world = Inr False"
    by (simp add: offline_world_def example_world_def)
  from offline_cycle_ends_up_to_date[OF h1 h2] h1 h2 p show ?thesis by simp
qed

text \<open>The claim as written fails when the server refuses the connection: the status is
  not \<open>error\<close>.\<close>

theorem offline_cycle_counterexample:
  "\<not> connected (share (example_update_manager Idle []))
   \<and> \<not> fst (connect offline_world (share (example_update_manager Idle [])))
   \<and> update_status (snd (check_and_download_updates offline_world (example_update_manager Idle [])))
       \<noteq> Error"
  by (simp add: check_and_download_updates_def check_for_updates_def ensure_connected_def
      connect_def update_version_info_def get_local_version_def get_remote_version_def
      offline_world_def example_world_def example_update_manager_def example_manager_def Let_def)

text \<open>
  Claim C1 at a failing input.  \<open>check_and_download_updates\<close> is called at time 5 while
  the status is \<open>downloading\<close> and the last check was at time 1: it runs a cycle, sets
  the time of the last check to 5 and leaves the status \<open>up_to_date\<close>.
\<close>

theorem check_and_download_updates_during_download:
  "check_and_download_updates offline_world (example_update_manager Downloading [])
   = (False,
      \<lparr>update_status = UpToDate, last_check_time = Some 5,
       info = \<lparr>v_local = None, v_remote = None, v_local_file = None, v_remote_file = None\<rparr>,
       share = \<lparr>connection = True, connected = False, dir_exists = True, files = []\<rparr>\<rparr>)"
  by (simp add: check_and_download_updates_def check_for_updates_def ensure_connected_def
      connect_def update_version_info_def get_local_version_def get_remote_version_def
      offline_world_def example_world_def example_update_manager_def example_manager_def Let_def)

section \<open>The version gate and the candidates\<close>



lemma spec_newer_Nil [simp]: "\<not> spec_newer a []"
  by (simp add: spec_newer_def)







lemma check_for_updates_gate_closed:
  assumes "ensure_connected w s = (True, s1)" and "\<not> fst (fst (check_version_files w s1))"
  shows "fst (check_for_updates w s) = (False, [])"
  using assms by (cases "check_version_files w s1") (auto simp: check_for_updates_def)







lemma get_local_version_files:
  "files s' = files s \<Longrightarrow> dir_exists s' = dir_exists s \<Longrightarrow> get_local_version w s' = get_local_version w s"
  by (simp add: get_local_version_def)










section \<open>The version text of a file name\<close>

lemma groups_text_simps [simp]:
  "groups_text sep [] = []"
  "groups_text sep (g # gs) = sep # g @ groups_text sep gs"
  by (simp_all add: groups_text_def)

lemma not_decimal_seps [simp]: "\<not> is_decimal (CHR ''.'')" "\<not> is_decimal (CHR ''-'')"
  by (simp_all add: is_decimal_def)

lemma sep_groups_prefix: "sep_groups sep r @ drop (length (sep_groups sep r)) r = r"
proof (induction sep r rule: sep_groups.induct)
  case (1 sep)
  then show ?case by simp
next
  case (2 sep c rest)
  show ?case
  proof (cases "c = sep \<and> takeWhile is_decimal rest \<noteq> []")
    case True
    let ?t = "takeWhile is_decimal rest" and ?d = "dropWhile is_decimal rest"
    have ih: "sep_groups sep ?d @ drop (length (sep_groups sep ?d)) ?d = ?d"
      using 2 True by simp
    have r: "rest = ?t @ ?d" by simp
    have "drop (length ?t + length (sep_groups sep ?d)) rest
          = drop (length (sep_groups sep ?d)) ?d"
      by (metis r append_eq_conv_conj drop_drop add.commute)
    then show ?thesis using True ih by simp
  next
    case False
    then show ?thesis by auto
  qed
qed

lemma sep_groups_shape:
  "\<exists>gs. sep_groups sep r = groups_text sep gs \<and> list_all digit_run gs"
proof (induction sep r rule: sep_groups.induct)
  case (1 sep)
  show ?case by (rule exI[of _ "[]"]) simp
next
  case (2 sep c rest)
  show ?case
  proof (cases "c = sep \<and> takeWhile is_decimal rest \<noteq> []")
    case True
    then obtain gs where gs: "sep_groups sep (dropWhile is_decimal rest) = groups_text sep gs"
      "list_all digit_run gs" using 2 by blast
    have dr: "digit_run (takeWhile is_decimal rest)"
      using True by (auto simp: digit_run_def list_all_iff dest: set_takeWhileD)
    show ?thesis
      by (rule exI[of _ "takeWhile is_decimal rest # gs"]) (use True gs dr in simp)
  next
    case False
    show ?thesis by (rule exI[of _ "[]"]) (use False in auto)
  qed
qed

lemma takeWhile_digit_run:
  "digit_run g \<Longrightarrow> takeWhile is_decimal (g @ y) = g @ takeWhile is_decimal y"
  by (simp add: digit_run_def list_all_iff takeWhile_append2)

lemma dropWhile_digit_run:
  "digit_run g \<Longrightarrow> dropWhile is_decimal (g @ y) = dropWhile is_decimal y"
  by (simp add: digit_run_def list_all_iff dropWhile_append2)

lemma takeWhile_Nil_drop: "takeWhile P y = [] \<Longrightarrow> dropWhile P y = y"
  by (metis append_Nil takeWhile_dropWhile_id)

lemma sep_groups_greedy:
  assumes "\<not> is_decimal sep" and "list_all digit_run gs"
  shows "sep_groups sep (groups_text sep gs @ tail) = groups_text sep gs @ sep_groups sep tail
         \<or> (tail \<noteq> [] \<and> is_decimal (hd tail)
             \<and> length (groups_text sep gs) < length (sep_groups sep (groups_text sep gs @ tail)))"
  using assms(2)
proof (induction gs)
  case Nil
  then show ?case by simp
next
  case (Cons g gs)
  then have g: "digit_run g" and gs: "list_all digit_run gs" by simp_all
  let ?y = "groups_text sep gs @ tail"
  have gne: "g \<noteq> []" using g by (simp add: digit_run_def)
  have unf: "sep_groups sep (groups_text sep (g # gs) @ tail)
        = sep # (g @ takeWhile is_decimal ?y) @ sep_groups sep (dropWhile is_decimal ?y)"
    using gne by (simp add: takeWhile_digit_run[OF g] dropWhile_digit_run[OF g])
  show ?case
  proof (cases "takeWhile is_decimal ?y = []")
    case True
    then have d: "dropWhile is_decimal ?y = ?y" by (rule takeWhile_Nil_drop)
    have u: "sep_groups sep (groups_text sep (g # gs) @ tail) = sep # g @ sep_groups sep ?y"
      using unf True d by simp
    from Cons.IH[OF gs] show ?thesis
    proof
      assume "sep_groups sep ?y = groups_text sep gs @ sep_groups sep tail"
      then show ?thesis using u by simp
    next
      assume "tail \<noteq> [] \<and> is_decimal (hd tail)
             \<and> length (groups_text sep gs) < length (sep_groups sep ?y)"
      then show ?thesis using u by simp
    qed
  next
    case False
    then have yne: "?y \<noteq> []" by auto
    have hy: "is_decimal (hd ?y)" using False by (cases ?y) (auto split: if_splits)
    have "gs = []"
    proof (rule ccontr)
      assume "gs \<noteq> []"
      then obtain h hs where "gs = h # hs" by (cases gs) auto
      then have "hd ?y = sep" by simp
      then show False using hy assms(1) by simp
    qed
    then have yt: "?y = tail" by simp
    have "length (groups_text sep (g # gs)) < length (sep_groups sep (groups_text sep (g # gs) @ tail))"
      using unf False \<open>gs = []\<close> by (simp add: )
    then show ?thesis using yt yne hy by simp
  qed
qed


lemma takeWhile_decimal_run: "s \<noteq> [] \<Longrightarrow> is_decimal (hd s) \<Longrightarrow> digit_run (takeWhile is_decimal s)"
  by (cases s) (auto simp: digit_run_def list_all_iff dest: set_takeWhileD)

lemma match_here_text:
  assumes "s \<noteq> []" and "is_decimal (hd s)"
  shows "version_text (match_here s)"
proof -
  let ?d = "takeWhile is_decimal s" and ?r1 = "dropWhile is_decimal s"
  let ?g1 = "sep_groups (CHR ''.'') ?r1"
  let ?r2 = "drop (length ?g1) ?r1"
  let ?g2 = "sep_groups (CHR ''-'') ?r2"
  obtain ds where ds: "?g1 = groups_text (CHR ''.'') ds" "list_all digit_run ds"
    using sep_groups_shape by blast
  obtain hs where hs: "?g2 = groups_text (CHR ''-'') hs" "list_all digit_run hs"
    using sep_groups_shape by blast
  have d: "digit_run ?d" by (rule takeWhile_decimal_run[OF assms])
  have "match_here s = ?d @ groups_text (CHR ''.'') ds @ groups_text (CHR ''-'') hs"
    using ds(1) hs(1) by (simp add: match_here_def Let_def)
  then show ?thesis unfolding version_text_def using d ds(2) hs(2) by blast
qed

lemma match_here_prefix: "\<exists>post. s = match_here s @ post"
proof -
  let ?d = "takeWhile is_decimal s" and ?r1 = "dropWhile is_decimal s"
  let ?g1 = "sep_groups (CHR ''.'') ?r1"
  let ?r2 = "drop (length ?g1) ?r1"
  let ?g2 = "sep_groups (CHR ''-'') ?r2"
  have "s = ?d @ ?r1" by simp
  also have "?r1 = ?g1 @ ?r2" by (rule sep_groups_prefix[symmetric])
  also have "?r2 = ?g2 @ drop (length ?g2) ?r2" by (rule sep_groups_prefix[symmetric])
  finally have "s = (?d @ ?g1 @ ?g2) @ drop (length ?g2) ?r2" by simp
  then show ?thesis unfolding match_here_def Let_def by blast
qed

lemma sep_groups_other_sep:
  "hs \<noteq> [] \<Longrightarrow> sep_groups (CHR ''.'') (groups_text (CHR ''-'') hs @ rest) = []"
  by (cases hs) simp_all

lemma groups_text_not_decimal_head:
  "\<not> is_decimal sep \<Longrightarrow> y = groups_text sep gs @ tail \<Longrightarrow> y \<noteq> [] \<Longrightarrow> is_decimal (hd y) \<Longrightarrow> gs = []"
  by (cases gs) auto

lemma match_here_longest:
  assumes v: "version_text v" and s: "s = v @ rest"
  shows "length v \<le> length (match_here s)"
proof -
  obtain d ds hs where vd: "v = d @ groups_text (CHR ''.'') ds @ groups_text (CHR ''-'') hs"
    and d: "digit_run d" and ds: "list_all digit_run ds" and hs: "list_all digit_run hs"
    using v unfolding version_text_def by blast
  let ?D = "groups_text (CHR ''.'') ds" and ?H = "groups_text (CHR ''-'') hs"
  let ?y = "?D @ ?H @ rest"
  have sy: "s = d @ ?y" using s vd by simp
  let ?r1 = "dropWhile is_decimal s"
  let ?g1 = "sep_groups (CHR ''.'') ?r1"
  let ?r2 = "drop (length ?g1) ?r1"
  let ?g2 = "sep_groups (CHR ''-'') ?r2"
  have tw: "takeWhile is_decimal s = d @ takeWhile is_decimal ?y"
    unfolding sy by (rule takeWhile_digit_run[OF d])
  have dw: "?r1 = dropWhile is_decimal ?y"
    unfolding sy by (rule dropWhile_digit_run[OF d])
  have mh: "match_here s = (d @ takeWhile is_decimal ?y) @ ?g1 @ ?g2"
    by (simp add: match_here_def Let_def tw)
  show ?thesis
  proof (cases "takeWhile is_decimal ?y = []")
    case False
    then have yne: "?y \<noteq> []" by auto
    have hy: "is_decimal (hd ?y)" using False by (cases ?y) (auto split: if_splits)
    have "ds = []"
      by (rule groups_text_not_decimal_head[OF _ _ yne hy, of "CHR ''.''" ds "?H @ rest"]) simp_all
    then have y2: "?y = ?H @ rest" by simp
    have "hs = []"
      by (rule groups_text_not_decimal_head[OF _ _ _ _, of "CHR ''-''" "?y" hs rest])
         (use y2 yne hy in simp_all)
    then have "v = d" using vd \<open>ds = []\<close> by simp
    then show ?thesis using mh by simp
  next
    case True
    then have r1: "?r1 = ?y" using dw takeWhile_Nil_drop by metis
    have mh': "match_here s = d @ ?g1 @ ?g2" using mh True by simp
    from sep_groups_greedy[of "CHR ''.''" ds "?H @ rest"] ds
    consider (aligned) "sep_groups (CHR ''.'') ?y = ?D @ sep_groups (CHR ''.'') (?H @ rest)"
      | (cut) "?H @ rest \<noteq> []" "is_decimal (hd (?H @ rest))"
          "length ?D < length (sep_groups (CHR ''.'') ?y)"
      by auto
    then show ?thesis
    proof cases
      case cut
      have "hs = []"
        by (rule groups_text_not_decimal_head[OF _ _ cut(1) cut(2), of "CHR ''-''" hs rest]) simp_all
      then have "v = d @ ?D" using vd by simp
      then show ?thesis using mh' cut(3) r1 by simp
    next
      case aligned
      show ?thesis
      proof (cases "hs = []")
        case True
        then have "v = d @ ?D" using vd by simp
        then show ?thesis using mh' aligned r1 by simp
      next
        case False
        then have g1: "?g1 = ?D" using aligned r1 sep_groups_other_sep[OF False] by simp
        then have r2: "?r2 = ?H @ rest" using r1 by simp
        from sep_groups_greedy[of "CHR ''-''" hs rest] hs
        have "length ?H \<le> length (sep_groups (CHR ''-'') (?H @ rest))" by auto
        then have "length ?H \<le> length ?g2" using r2 by simp
        then show ?thesis using mh' g1 vd by simp
      qed
    qed
  qed
qed

text \<open>
  Claim C8, as amended.  A file name without a decimal digit is returned whole.  Otherwise
  the version text starts at the first decimal digit of the file name, it matches the
  pattern (digits, then dot groups, then hyphen groups), and no text that starts at that
  digit and matches the pattern is longer: it is the leftmost match, taken greedily, and
  not the longest run of the file name.
\<close>

theorem extract_version_leftmost_greedy:
  "((\<forall>c\<in>set f. \<not> is_decimal c) \<longrightarrow> extract_version_from_filename f = f)
   \<and> ((\<exists>c\<in>set f. is_decimal c) \<longrightarrow>
        (\<exists>post. f = takeWhile (\<lambda>c. \<not> is_decimal c) f @ extract_version_from_filename f @ post
           \<and> version_text (extract_version_from_filename f)
           \<and> (\<forall>v rest. version_text v \<and> extract_version_from_filename f @ post = v @ rest
                 \<longrightarrow> length v \<le> length (extract_version_from_filename f))))"
proof (intro conjI impI)
  assume "\<forall>c\<in>set f. \<not> is_decimal c"
  then have d0: "dropWhile (\<lambda>c. \<not> is_decimal c) f = []" by simp
  have "re_search f = None" unfolding re_search_def d0 by simp
  then show "extract_version_from_filename f = f"
    by (simp add: extract_version_from_filename_def)
next
  assume ex: "\<exists>c\<in>set f. is_decimal c"
  let ?s = "dropWhile (\<lambda>c. \<not> is_decimal c) f"
  have sne: "?s \<noteq> []" using ex by (simp add: dropWhile_eq_Nil_conv)
  have hd: "is_decimal (hd ?s)" using hd_dropWhile[OF sne] by simp
  obtain c cs where cs: "?s = c # cs" using sne by (cases ?s) auto
  have "re_search f = Some (match_here ?s)" unfolding re_search_def cs by simp
  then have e: "extract_version_from_filename f = match_here ?s"
    by (simp add: extract_version_from_filename_def)
  obtain post where post: "?s = match_here ?s @ post" using match_here_prefix by blast
  have f: "f = takeWhile (\<lambda>c. \<not> is_decimal c) f @ extract_version_from_filename f @ post"
    using post e by (metis takeWhile_dropWhile_id)
  have t: "version_text (extract_version_from_filename f)"
    unfolding e by (rule match_here_text[OF sne hd])
  have m: "\<forall>v rest. version_text v \<and> extract_version_from_filename f @ post = v @ rest
                 \<longrightarrow> length v \<le> length (extract_version_from_filename f)"
    unfolding e using match_here_longest post by metis
  show "\<exists>post. f = takeWhile (\<lambda>c. \<not> is_decimal c) f @ extract_version_from_filename f @ post
           \<and> version_text (extract_version_from_filename f)
           \<and> (\<forall>v rest. version_text v \<and> extract_version_from_filename f @ post = v @ rest
                 \<longrightarrow> length v \<le> length (extract_version_from_filename f))"
    using f t m by blast
qed

theorem extract_version_leftmost_greedy_witness:
  "extract_version_from_filename ''SIGES.txt'' = ''SIGES.txt''
   \<and> extract_version_from_filename ''SIGES 20.0.20-24.txt'' = ''20.0.20-24''
   \<and> version_text ''20.0.20-24''"
proof -
  have h1: "\<forall>c\<in>set ''SIGES.txt''. \<not> is_decimal c" by (simp add: is_decimal_def)
  have h2: "\<exists>c\<in>set ''SIGES 20.0.20-24.txt''. is_decimal c" by (simp add: is_decimal_def)
  have e: "extract_version_from_filename ''SIGES 20.0.20-24.txt'' = ''20.0.20-24''" by code_simp
  have r1: "extract_version_from_filename ''SIGES.txt'' = ''SIGES.txt''"
    using extract_version_leftmost_greedy[of "''SIGES.txt''"] h1 by blast
  have "version_text (extract_version_from_filename ''SIGES 20.0.20-24.txt'')"
    using extract_version_leftmost_greedy[of "''SIGES 20.0.20-24.txt''"] h2 by blast
  then have r2: "version_text ''20.0.20-24''" using e by simp
  show ?thesis using e r1 r2 by blast
qed

text \<open>
  The claim as written fails when a shorter run comes first: the text extracted is \<open>2\<close>,
  although the longer run \<open>20.0.20\<close> occurs in the file name.
\<close>

theorem extract_version_not_longest_counterexample:
  "extract_version_from_filename ''SIGES 2 20.0.20.txt'' = ''2''
   \<and> ''SIGES 2 20.0.20.txt'' = ''SIGES 2 '' @ ''20.0.20'' @ ''.txt''
   \<and> version_text ''20.0.20''
   \<and> length ''2'' < length ''20.0.20''"
proof -
  have e: "extract_version_from_filename ''SIGES 2 20.0.20.txt'' = ''2''" by code_simp
  have "''20.0.20'' = ''20'' @ groups_text (CHR ''.'') [''0'', ''20''] @ groups_text (CHR ''-'') []
        \<and> digit_run ''20'' \<and> list_all digit_run [''0'', ''20''] \<and> list_all digit_run []"
    by (simp add: digit_run_def is_decimal_def)
  then have t: "version_text ''20.0.20''" unfolding version_text_def by blast
  show ?thesis using e t by simp
qed

end
